theory Spec2Isabelle
  imports Main "HOL-Library.Multiset"
begin

section \<open>Python values and exceptions\<close>

text \<open>
  The exceptions the modelled functions raise or let through. \<open>ParseError url message cause\<close>
  carries the \<open>__cause__\<close> set by \<open>raise ... from cause\<close> (\<open>None\<close> after \<open>from None\<close>).
  \<open>OtherError\<close> stands for any exception class that no handler of the modelled code names.
\<close>

datatype pyexc =
    AssertionError
  | AttributeError
  | TypeError
  | ValueError string
  | NotModified string
  | ParseError string "string option" "pyexc option"
  | OSError string
  | CharacterEncodingOverride
  | OtherError string

section \<open>The file retriever (src/reader/_parser/file.py)\<close>

text \<open>
  \<open>FileRetriever\<close> imports \<open>extract_path\<close> and \<open>resolve_root\<close> from the module
  \<open>_url_utils\<close>, and \<open>wrap_exceptions\<close> from the package; none of them is among the
  source files, and \<open>PurePath.is_reserved\<close> depends on the platform. They are parameters
  of the model, collected in one record. A helper that raises returns \<open>Inl\<close>.
\<close>

record url_utils =
  extract_path :: "string \<Rightarrow> pyexc + string"
  resolve_root :: "string \<Rightarrow> string \<Rightarrow> pyexc + string"
  is_reserved :: "string \<Rightarrow> bool"
  wrap_exceptions :: "string \<Rightarrow> string \<Rightarrow> pyexc \<Rightarrow> pyexc"

text \<open>
  \<open>_normalize_url\<close>: the root check and the reserved-name check are both under
  \<open>if self.feed_root\<close>; an empty string is falsy.
\<close>

definition normalize_url :: "url_utils \<Rightarrow> string \<Rightarrow> string \<Rightarrow> pyexc + string" where
  "normalize_url u feed_root url =
     (case extract_path u url of
        Inl e \<Rightarrow> Inl e
      | Inr path \<Rightarrow>
          if feed_root \<noteq> [] then
            (case resolve_root u feed_root path of
               Inl e \<Rightarrow> Inl e
             | Inr path' \<Rightarrow>
                 if is_reserved u path' then Inl (ValueError ''path must not be reserved'')
                 else Inr path')
          else Inr path)"

text \<open>
  \<open>__call__\<close>. The file system is a function from a path to what \<open>open(path, 'rb')\<close>
  gives: the file's bytes or the exception raised. The result is paired with the list of
  paths handed to \<open>open\<close>, so that "no file was opened" is the empty list.
  Only \<open>ValueError\<close> from \<open>_normalize_url\<close> is caught and turned into
  \<open>ParseError(url, message=str(e)) from None\<close>; any other exception propagates.
\<close>

definition FileRetriever_call ::
  "url_utils \<Rightarrow> (string \<Rightarrow> pyexc + 'f) \<Rightarrow> string \<Rightarrow> string \<Rightarrow> (pyexc + 'f) \<times> string list" where
  "FileRetriever_call u fs feed_root url =
     (case normalize_url u feed_root url of
        Inl (ValueError msg) \<Rightarrow> (Inl (ParseError url (Some msg) None), [])
      | Inl e \<Rightarrow> (Inl e, [])
      | Inr normalized_url \<Rightarrow>
          (case fs normalized_url of
             Inl e \<Rightarrow> (Inl (wrap_exceptions u url ''while reading feed'' e), [normalized_url])
           | Inr fh \<Rightarrow> (Inr fh, [normalized_url])))"

text \<open>
  \<open>__post_init__\<close> normalizes a fixed relative URL so that a bad \<open>feed_root\<close> fails at
  construction; the retriever is its \<open>feed_root\<close>.
\<close>

definition FileRetriever_init :: "url_utils \<Rightarrow> string \<Rightarrow> pyexc + string" where
  "FileRetriever_init u feed_root =
     (case normalize_url u feed_root ''known-good-feed-url'' of
        Inl e \<Rightarrow> Inl e
      | Inr _ \<Rightarrow> Inr feed_root)"

text \<open>
  Modelled from the spec: the helpers of \<open>_url_utils\<close> are not under src/. The spec asks
  that paths escaping the root are rejected; this POSIX instance is used to run the
  retriever on concrete URLs. \<open>outside_root\<close> walks the components of a relative path
  and reports whether it ever climbs above its starting directory.
\<close>

fun split_on :: "char \<Rightarrow> string \<Rightarrow> string \<Rightarrow> string list" where
  "split_on c acc [] = [rev acc]"
| "split_on c acc (x # xs) = (if x = c then rev acc # split_on c [] xs else split_on c (x # acc) xs)"

fun outside_root :: "nat \<Rightarrow> string list \<Rightarrow> bool" where
  "outside_root depth [] = False"
| "outside_root depth (p # ps) =
     (if p = ''..'' then (case depth of 0 \<Rightarrow> True | Suc d \<Rightarrow> outside_root d ps)
      else if p = [] \<or> p = ''.'' then outside_root depth ps
      else outside_root (Suc depth) ps)"

definition posix_extract_path :: "string \<Rightarrow> pyexc + string" where
  "posix_extract_path url =
     (if take 7 url = ''file://'' then
        (if take 1 (drop 7 url) = ''/'' then Inr (drop 7 url)
         else Inl (ValueError ''unknown authority for file URI''))
      else Inr url)"

definition posix_resolve_root :: "string \<Rightarrow> string \<Rightarrow> pyexc + string" where
  "posix_resolve_root root path =
     (if take 1 path = ''/'' then Inl (ValueError ''path must be relative'')
      else if outside_root 0 (split_on (CHR ''/'') [] path)
        then Inl (ValueError ''path cannot be outside root'')
      else Inr (root @ ''/'' @ path))"

definition posix_utils :: url_utils where
  "posix_utils =
     \<lparr> extract_path = posix_extract_path,
       resolve_root = posix_resolve_root,
       is_reserved = (\<lambda>_. False),
       wrap_exceptions = (\<lambda>url when e. ParseError url (Some (''error '' @ when)) (Some e)) \<rparr>"

section \<open>The parser (src/reader/parser.py)\<close>

subsection \<open>What feedparser hands over\<close>

text \<open>
  Values found in feedparser's dictionaries: \<open>None\<close>, a string or an integer. A time
  tuple is a tuple of integers; a datetime is kept as the POSIX timestamp that
  \<open>calendar.timegm\<close> computes for it. \<open>calendar.timegm\<close> and the conversion of a string
  by the builtin \<open>int\<close> belong to Python, \<open>feedparser.parse\<close>, \<open>urlparse\<close>,
  \<open>requests.get\<close> and \<open>_feedparser_parse_snippet\<close> are outside the source files: all
  are parameters, in the record \<open>pyenv\<close>.
\<close>

datatype pyval = PyNone | PyStr string | PyInt int

type_synonym timetuple = "int list"
type_synonym datetime = int
type_synonym pydict = "string \<rightharpoonup> pyval"

text \<open>
  A feed or an entry as feedparser gives it. For the two date keys the outer option is
  "the key is in the dictionary", the inner one the value, which may be \<open>None\<close>.
  \<open>fp_id = None\<close> is an entry without the key \<open>id\<close>. The text fields are read with
  \<open>.get\<close>, so a missing key and the value \<open>None\<close> are the same.
\<close>

record fp_thing =
  updated_parsed :: "timetuple option option"
  published_parsed :: "timetuple option option"
  fp_title :: "string option"
  fp_link :: "string option"
  fp_author :: "string option"

record fp_entry = fp_thing +
  fp_id :: "string option"
  fp_summary :: "string option"
  fp_content :: "pydict list"
  fp_enclosures :: "pydict list"

record fp_result =
  fp_status :: "int option"
  fp_etag :: "string option"
  fp_modified :: "string option"
  fp_bozo :: bool
  fp_bozo_exception :: "pyexc option"
  fp_version :: string
  fp_feed :: fp_thing
  fp_entries :: "fp_entry list"
  fp_headers :: "string \<rightharpoonup> string"
  fp_href :: "string option"
  fp_newurl :: "string option"

record url_split =
  scheme :: string
  netloc :: string
  url_path :: string
  params :: string
  query :: string
  fragment :: string

record response =
  status_code :: int
  resp_headers :: "string \<rightharpoonup> string"
  resp_url :: string
  resp_content :: string

record pyenv =
  timegm :: "timetuple \<Rightarrow> int"
  int_of_str :: "string \<Rightarrow> int option"
  feedparser_parse :: "string \<Rightarrow> string option \<Rightarrow> string option \<Rightarrow> fp_result"
  urlparse :: "string \<Rightarrow> url_split"
  requests_get :: "string \<Rightarrow> (string \<rightharpoonup> string) \<Rightarrow> pyexc + response"
  feedparser_parse_snippet :: "fp_result \<Rightarrow> string \<Rightarrow> fp_result"
  ACCEPT_HEADER :: string

subsection \<open>The data types the parser builds (types.py)\<close>

record Feed =
  feed_url :: string
  feed_updated :: "datetime option"
  feed_title :: "string option"
  feed_link :: "string option"
  feed_author :: "string option"
  feed_user_title :: "string option"

record Content =
  content_value :: pyval
  content_type :: pyval
  content_language :: pyval

record Enclosure =
  enc_href :: pyval
  enc_type :: pyval
  enc_length :: pyval

record Entry =
  entry_id :: string
  entry_updated :: "datetime option"
  entry_title :: "string option"
  entry_link :: "string option"
  entry_author :: "string option"
  entry_published :: "datetime option"
  entry_summary :: "string option"
  entry_content :: "Content list option"
  entry_enclosures :: "Enclosure list option"
  entry_read :: bool
  entry_feed :: "Feed option"

subsection \<open>Dates\<close>

text \<open>\<open>_datetime_from_timetuple\<close>: \<open>None\<close> and the empty tuple are falsy.\<close>

definition datetime_from_timetuple :: "pyenv \<Rightarrow> timetuple option \<Rightarrow> datetime option" where
  "datetime_from_timetuple env tt =
     (case tt of None \<Rightarrow> None | Some t \<Rightarrow> if t = [] then None else Some (timegm env t))"

text \<open>
  \<open>_get_updated_published\<close>. A datetime object is always truthy, so \<open>published and not
  updated\<close> is "published is not None and updated is None".
\<close>

definition get_updated_published ::
  "pyenv \<Rightarrow> ('a fp_thing_scheme) \<Rightarrow> bool \<Rightarrow> datetime option \<times> datetime option" where
  "get_updated_published env thing is_rss =
     (let updated = (case updated_parsed thing of None \<Rightarrow> None
                     | Some tt \<Rightarrow> datetime_from_timetuple env tt);
          published = (case published_parsed thing of None \<Rightarrow> None
                       | Some tt \<Rightarrow> datetime_from_timetuple env tt)
      in if published \<noteq> None \<and> updated = None \<and> is_rss then (published, None)
         else (updated, published))"

subsection \<open>Entries\<close>

text \<open>
  The builtin \<open>int\<close> on a value: \<open>None\<close> is a \<open>TypeError\<close>, a string that is not a
  number a \<open>ValueError\<close>.
\<close>

fun py_int :: "pyenv \<Rightarrow> pyval \<Rightarrow> pyexc + int" where
  "py_int env PyNone = Inl TypeError"
| "py_int env (PyInt n) = Inr n"
| "py_int env (PyStr s) =
     (case int_of_str env s of None \<Rightarrow> Inl (ValueError ''invalid literal for int()'')
      | Some n \<Rightarrow> Inr n)"

text \<open>A keyword argument that is not given takes its default, \<open>None\<close>.\<close>

definition kwarg :: "pydict \<Rightarrow> string \<Rightarrow> pyval" where
  "kwarg data k = (case data k of None \<Rightarrow> PyNone | Some v \<Rightarrow> v)"

text \<open>
  \<open>Content(**data)\<close> and \<open>Enclosure(**data)\<close>: the first field has no default, so
  a dictionary without it is a \<open>TypeError\<close>.
\<close>

definition Content_kw :: "pydict \<Rightarrow> pyexc + Content" where
  "Content_kw data =
     (case data ''value'' of None \<Rightarrow> Inl TypeError
      | Some v \<Rightarrow> Inr \<lparr> content_value = v, content_type = kwarg data ''type'',
                        content_language = kwarg data ''language'' \<rparr>)"

definition Enclosure_kw :: "pydict \<Rightarrow> pyexc + Enclosure" where
  "Enclosure_kw data =
     (case data ''href'' of None \<Rightarrow> Inl TypeError
      | Some h \<Rightarrow> Inr \<lparr> enc_href = h, enc_type = kwarg data ''type'',
                        enc_length = kwarg data ''length'' \<rparr>)"

text \<open>The body of the loop over \<open>entry.get('content', ())\<close>.\<close>

definition make_content :: "pydict \<Rightarrow> pyexc + Content" where
  "make_content data = Content_kw (data |` {''value'', ''type'', ''language''})"

text \<open>
  The body of the loop over \<open>entry.get('enclosures', ())\<close>: the \<open>except\<close> clause names
  \<open>TypeError\<close> and \<open>ValueError\<close>; anything else would propagate.
\<close>

definition make_enclosure :: "pyenv \<Rightarrow> pydict \<Rightarrow> pyexc + Enclosure" where
  "make_enclosure env data0 =
     (let data = data0 |` {''href'', ''type'', ''length''}
      in case data ''length'' of
           None \<Rightarrow> Enclosure_kw data
         | Some v \<Rightarrow>
             (case py_int env v of
                Inr n \<Rightarrow> Enclosure_kw (data(''length'' \<mapsto> PyInt n))
              | Inl TypeError \<Rightarrow> Enclosure_kw (data(''length'' := None))
              | Inl (ValueError m) \<Rightarrow> Enclosure_kw (data(''length'' := None))
              | Inl e \<Rightarrow> Inl e))"

text \<open>A \<open>for\<close> loop that appends one result per element and stops at the first exception.\<close>

fun collect :: "('a \<Rightarrow> pyexc + 'b) \<Rightarrow> 'a list \<Rightarrow> pyexc + 'b list" where
  "collect f [] = Inr []"
| "collect f (x # xs) =
     (case f x of
        Inl e \<Rightarrow> Inl e
      | Inr y \<Rightarrow> (case collect f xs of Inl e \<Rightarrow> Inl e | Inr ys \<Rightarrow> Inr (y # ys)))"

text \<open>
  \<open>_make_entry\<close>. \<open>entry.id\<close> on an entry without the key is an \<open>AttributeError\<close>;
  the two \<open>assert\<close>s raise \<open>AssertionError\<close>. \<open>content or None\<close> turns the empty
  tuple into \<open>None\<close>.
\<close>

definition make_entry :: "pyenv \<Rightarrow> fp_entry \<Rightarrow> bool \<Rightarrow> pyexc + Entry" where
  "make_entry env entry is_rss =
     (case fp_id entry of
        None \<Rightarrow> Inl AttributeError
      | Some i \<Rightarrow>
          if i = [] then Inl AssertionError
          else
            (let (updated, published) = get_updated_published env entry is_rss
             in if updated = None then Inl AssertionError
                else
                  (case collect make_content (fp_content entry) of
                     Inl e \<Rightarrow> Inl e
                   | Inr content \<Rightarrow>
                       (case collect (make_enclosure env) (fp_enclosures entry) of
                          Inl e \<Rightarrow> Inl e
                        | Inr enclosures \<Rightarrow>
                            Inr \<lparr> entry_id = i,
                                  entry_updated = updated,
                                  entry_title = fp_title entry,
                                  entry_link = fp_link entry,
                                  entry_author = fp_author entry,
                                  entry_published = published,
                                  entry_summary = fp_summary entry,
                                  entry_content = (if content = [] then None else Some content),
                                  entry_enclosures = (if enclosures = [] then None else Some enclosures),
                                  entry_read = False,
                                  entry_feed = None \<rparr>))))"

subsection \<open>Feeds\<close>

text \<open>
  A generator expression over \<open>xs\<close> that a consumer iterates to the end: the values
  made before the first exception and that exception, if there is one. The exception
  finishes the generator, so nothing is made of the elements after it.
\<close>

fun run_generator :: "('a \<Rightarrow> pyexc + 'b) \<Rightarrow> 'a list \<Rightarrow> 'b list \<times> pyexc option" where
  "run_generator f [] = ([], None)"
| "run_generator f (x # xs) =
     (case f x of
        Inl e \<Rightarrow> ([], Some e)
      | Inr y \<Rightarrow> (case run_generator f xs of (ys, r) \<Rightarrow> (y # ys, r)))"

text \<open>
  \<open>_process_feed\<close>. The entries are a generator expression: \<open>_make_entry\<close> runs when
  the consumer iterates, so a failing entry does not make \<open>_process_feed\<close> raise; the
  result holds what the consumer gets of the generator. The log line of the encoding
  override is not modelled.
\<close>

definition process_feed ::
  "pyenv \<Rightarrow> string \<Rightarrow> fp_result \<Rightarrow> pyexc + (Feed \<times> (Entry list \<times> pyexc option))" where
  "process_feed env url d =
     (if fp_bozo d \<and> fp_bozo_exception d \<noteq> Some CharacterEncodingOverride
        then Inl (ParseError url None (fp_bozo_exception d))
      else
        (let is_rss = (take 3 (fp_version d) = ''rss'');
             updated = fst (get_updated_published env (fp_feed d) is_rss);
             feed = \<lparr> feed_url = url, feed_updated = updated,
                      feed_title = fp_title (fp_feed d), feed_link = fp_link (fp_feed d),
                      feed_author = fp_author (fp_feed d), feed_user_title = None \<rparr>
         in Inr (feed, run_generator (\<lambda>e. make_entry env e is_rss) (fp_entries d))))"

type_synonym parse_result =
  "Feed \<times> (Entry list \<times> pyexc option) \<times> string option \<times> string option"

text \<open>\<open>parse_feedparser\<close>: status 304 raises before anything of the document is read.\<close>

definition parse_feedparser ::
  "pyenv \<Rightarrow> string \<Rightarrow> string option \<Rightarrow> string option \<Rightarrow> pyexc + parse_result" where
  "parse_feedparser env url http_etag http_last_modified =
     (let d = feedparser_parse env url http_etag http_last_modified
      in if fp_status d = Some 304 then Inl (NotModified url)
         else
           (let http_etag' = (case fp_etag d of None \<Rightarrow> http_etag | Some t \<Rightarrow> Some t);
                http_last_modified' =
                  (case fp_modified d of None \<Rightarrow> http_last_modified | Some m \<Rightarrow> Some m)
            in case process_feed env url d of
                 Inl e \<Rightarrow> Inl e
               | Inr (feed, entries) \<Rightarrow> Inr (feed, entries, http_etag', http_last_modified')))"

text \<open>
  \<open>parse_requests\<close>. A string option is truthy when it is a non-empty string. Any
  exception of \<open>requests.get\<close> becomes a \<open>ParseError\<close> with that exception as cause.
\<close>

definition truthy :: "string option \<Rightarrow> bool" where
  "truthy s = (case s of None \<Rightarrow> False | Some t \<Rightarrow> t \<noteq> [])"

definition request_headers :: "pyenv \<Rightarrow> string option \<Rightarrow> string option \<Rightarrow> (string \<rightharpoonup> string)" where
  "request_headers env http_etag http_last_modified =
     (let h0 = [''Accept'' \<mapsto> ACCEPT_HEADER env, ''A-IM'' \<mapsto> ''feed''];
          h1 = (if truthy http_etag then h0(''If-None-Match'' := http_etag) else h0)
      in if truthy http_last_modified then h1(''If-Modified-Since'' := http_last_modified) else h1)"

definition parse_requests ::
  "pyenv \<Rightarrow> string \<Rightarrow> string option \<Rightarrow> string option \<Rightarrow> pyexc + parse_result" where
  "parse_requests env url http_etag http_last_modified =
     (let url_split = urlparse env url in
      if scheme url_split \<noteq> ''http'' \<and> scheme url_split \<noteq> ''https'' then
        (if netloc url_split \<noteq> [] \<or> params url_split \<noteq> [] \<or> query url_split \<noteq> []
            \<or> fragment url_split \<noteq> []
           then Inl AssertionError
         else
           (let url' = (if scheme url_split = ''file'' then url_path url_split
                        else scheme url_split @ (if scheme url_split \<noteq> [] then '':'' else [])
                             @ url_path url_split)
            in parse_feedparser env url' http_etag http_last_modified))
      else
        (case requests_get env url (request_headers env http_etag http_last_modified) of
           Inl e \<Rightarrow> Inl (ParseError url None (Some e))
         | Inr response \<Rightarrow>
             if status_code response = 304 then Inl (NotModified url)
             else
               (let result0 = \<lparr> fp_status = Some (status_code response), fp_etag = None,
                                fp_modified = None, fp_bozo = False, fp_bozo_exception = None,
                                fp_version = [],
                                fp_feed = \<lparr> updated_parsed = None, published_parsed = None,
                                            fp_title = None, fp_link = None, fp_author = None \<rparr>,
                                fp_entries = [],
                                fp_headers = resp_headers response,
                                fp_href = Some (resp_url response),
                                fp_newurl = (if resp_url response \<noteq> url
                                             then Some (resp_url response) else None) \<rparr>;
                    result = feedparser_parse_snippet env result0 (resp_content response);
                    http_etag' = (case resp_headers response ''ETag'' of
                                    None \<Rightarrow> http_etag | Some t \<Rightarrow> Some t);
                    http_last_modified' = (case resp_headers response ''Last-Modified'' of
                                    None \<Rightarrow> http_last_modified | Some m \<Rightarrow> Some m)
                in case process_feed env url result of
                     Inl e \<Rightarrow> Inl e
                   | Inr (feed, entries) \<Rightarrow> Inr (feed, entries, http_etag', http_last_modified'))))"

subsection \<open>The caller of the parser\<close>

text \<open>
  \<open>UpdatedEntry\<close> and \<open>UpdateResult\<close> as core/types.py declares them.
\<close>

record UpdatedEntry =
  ue_entry :: Entry
  ue_new :: bool

record UpdateResult =
  ur_entries :: "UpdatedEntry list"

text \<open>
  Modelled from the spec: the update of one feed, which calls the parser, is not under
  src/. Sections 7 and 8 of the spec: \<open>NotModified\<close> is not an error, it short-circuits
  to a successful \<open>UpdateResult\<close> with an empty entry sequence, without the
  reconciler's entry loop; any other exception of the parser is the feed's error;
  a parsed document goes to the reconciler, which is a parameter here.
\<close>

definition update_feed ::
  "(string \<Rightarrow> string option \<Rightarrow> string option \<Rightarrow> pyexc + parse_result)
     \<Rightarrow> (parse_result \<Rightarrow> pyexc + UpdateResult)
     \<Rightarrow> string \<Rightarrow> string option \<Rightarrow> string option \<Rightarrow> pyexc + UpdateResult" where
  "update_feed parse reconcile url http_etag http_last_modified =
     (case parse url http_etag http_last_modified of
        Inl (NotModified u) \<Rightarrow> Inr \<lparr> ur_entries = [] \<rparr>
      | Inl e \<Rightarrow> Inl e
      | Inr parsed \<Rightarrow> reconcile parsed)"

subsection \<open>A concrete environment\<close>

text \<open>
  Instances of the parameters, to run the parser on concrete input: decimal strings for
  \<open>int\<close>, the proleptic Gregorian calendar for \<open>calendar.timegm\<close>, and a remote
  that answers 304 to the entity tag \<open>v2\<close> (with a document that would fail if it were
  processed) and otherwise serves an RSS 2.0 document with
  one entry, which has a publication date only and two enclosures, of lengths
  \<open>12a\<close> and \<open>1024\<close>.
\<close>


fun digits_value :: "int \<Rightarrow> string \<Rightarrow> int option" where
  "digits_value acc [] = Some acc"
| "digits_value acc (c # cs) =
     (if c \<in> set ''0123456789'' then digits_value (10 * acc + (of_char c - 48)) cs else None)"

definition decimal_of_str :: "string \<Rightarrow> int option" where
  "decimal_of_str s = (if s = [] then None else digits_value 0 s)"

definition days_from_civil :: "int \<Rightarrow> int \<Rightarrow> int \<Rightarrow> int" where
  "days_from_civil y m d =
     (let y' = (if m \<le> 2 then y - 1 else y);
          era = y' div 400;
          yoe = y' - era * 400;
          doy = (153 * (if m > 2 then m - 3 else m + 9) + 2) div 5 + d - 1;
          doe = yoe * 365 + yoe div 4 - yoe div 100 + doy
      in era * 146097 + doe - 719468)"

fun utc_timegm :: "timetuple \<Rightarrow> int" where
  "utc_timegm (y # m # d # H # M # S # _) = ((days_from_civil y m d * 24 + H) * 60 + M) * 60 + S"
| "utc_timegm _ = 0"


definition no_dates :: fp_thing where
  "no_dates = \<lparr> updated_parsed = None, published_parsed = None,
                 fp_title = None, fp_link = None, fp_author = None \<rparr>"

definition rss_entry :: fp_entry where
  "rss_entry =
     \<lparr> updated_parsed = None,
       published_parsed = Some (Some [2010, 1, 1, 0, 0, 0, 4, 1, 0]),
       fp_title = Some ''First post'', fp_link = Some ''http://example.com/1'',
       fp_author = None,
       fp_id = Some ''urn:post:1'', fp_summary = Some ''A summary'',
       fp_content = [[''value'' \<mapsto> PyStr ''Hello'', ''type'' \<mapsto> PyStr ''text/plain'',
                      ''base'' \<mapsto> PyStr ''http://example.com/'']],
       fp_enclosures = [[''href'' \<mapsto> PyStr ''http://example.com/a.mp3'',
                         ''type'' \<mapsto> PyStr ''audio/mpeg'',
                         ''length'' \<mapsto> PyStr ''12a''],
                        [''href'' \<mapsto> PyStr ''http://example.com/b.mp3'',
                         ''length'' \<mapsto> PyStr ''1024'']] \<rparr>"

definition undated_entry :: fp_entry where
  "undated_entry = rss_entry \<lparr> published_parsed := None \<rparr>"

definition rss_document :: fp_result where
  "rss_document =
     \<lparr> fp_status = Some 200, fp_etag = Some ''v2'', fp_modified = None, fp_bozo = False,
       fp_bozo_exception = None, fp_version = ''rss20'', fp_feed = no_dates,
       fp_entries = [rss_entry], fp_headers = Map.empty, fp_href = None, fp_newurl = None \<rparr>"

definition example_urlparse :: "string \<Rightarrow> url_split" where
  "example_urlparse url =
     (if take 7 url = ''http://'' then
        \<lparr> scheme = ''http'', netloc = takeWhile (\<lambda>c. c \<noteq> CHR ''/'') (drop 7 url),
          url_path = dropWhile (\<lambda>c. c \<noteq> CHR ''/'') (drop 7 url),
          params = [], query = [], fragment = [] \<rparr>
      else \<lparr> scheme = [], netloc = [], url_path = url, params = [], query = [], fragment = [] \<rparr>)"

definition example_env :: pyenv where
  "example_env =
     \<lparr> timegm = utc_timegm,
       int_of_str = decimal_of_str,
       feedparser_parse = (\<lambda>url etag modified.
          if etag = Some ''v2''
            then rss_document \<lparr> fp_status := Some 304, fp_etag := None, fp_bozo := True,
                   fp_bozo_exception := Some (OtherError ''not well-formed''),
                   fp_entries := [undated_entry] \<rparr>
          else rss_document),
       urlparse = example_urlparse,
       requests_get = (\<lambda>url headers.
          Inr \<lparr> status_code = (if headers ''If-None-Match'' = Some ''v2'' then 304 else 200),
                resp_headers = [''ETag'' \<mapsto> ''v2''], resp_url = url, resp_content = [] \<rparr>),
       feedparser_parse_snippet = (\<lambda>result content.
          result \<lparr> fp_version := ''rss20'', fp_entries := [rss_entry] \<rparr>),
       ACCEPT_HEADER = ''application/atom+xml,application/rss+xml'' \<rparr>"

text \<open>
  What the two loops of \<open>_make_entry\<close> are expected to make of a dictionary that has
  its first field: the other fields default to \<open>None\<close>, and a \<open>length\<close> that
  \<open>int\<close> refuses is left at its default.
\<close>

definition content_of :: "pydict \<Rightarrow> Content" where
  "content_of data = \<lparr> content_value = kwarg data ''value'', content_type = kwarg data ''type'',
     content_language = kwarg data ''language'' \<rparr>"

definition enclosure_of :: "pyenv \<Rightarrow> pydict \<Rightarrow> Enclosure" where
  "enclosure_of env data = \<lparr> enc_href = kwarg data ''href'', enc_type = kwarg data ''type'',
     enc_length = (case data ''length'' of None \<Rightarrow> PyNone
                   | Some v \<Rightarrow> (case py_int env v of Inr n \<Rightarrow> PyInt n | Inl e \<Rightarrow> PyNone)) \<rparr>"

section \<open>Utilities (src/reader/_utils.py)\<close>

subsection \<open>Pagination\<close>

text \<open>
  \<open>get_things(size, last)\<close> returns a page of \<open>(thing, sort key)\<close> pairs; Python's integers
  are unbounded, so sizes are \<open>int\<close>.
\<close>

type_synonym ('u, 'c) get_things = "int \<Rightarrow> 'c option \<Rightarrow> ('u \<times> 'c) list"

text \<open>
  The \<open>while True\<close> loop of \<open>join_paginated_iter\<close>. The generator may never finish (a
  source that always fills the chunk, and no limit), so the loop takes fuel: one unit per
  iteration, \<open>None\<close> when it runs out. The result of a finished run is the list of calls
  made, each as \<open>(to_get, last)\<close>, and the things yielded, in order.
\<close>

fun jpi_loop ::
  "nat \<Rightarrow> ('u, 'c) get_things \<Rightarrow> int \<Rightarrow> int \<Rightarrow> int \<Rightarrow> 'c option
     \<Rightarrow> ((int \<times> 'c option) list \<times> 'u list) option" where
  "jpi_loop 0 get_things chunk_size limit remaining last_key = None"
| "jpi_loop (Suc fuel) get_things chunk_size limit remaining last_key =
     (if limit \<noteq> 0 \<and> remaining = 0 then Some ([], [])
      else
        (let to_get = (if limit \<noteq> 0 then min remaining chunk_size else chunk_size);
             remaining' = (if limit \<noteq> 0 then max 0 (remaining - to_get) else remaining);
             things = get_things to_get last_key
         in if things = [] then Some ([(to_get, last_key)], [])
            else if int (length things) < to_get
              then Some ([(to_get, last_key)], map fst things)
            else
              (case jpi_loop fuel get_things chunk_size limit remaining' (Some (snd (last things))) of
                 None \<Rightarrow> None
               | Some (calls, rest) \<Rightarrow> Some ((to_get, last_key) # calls, map fst things @ rest))))"

text \<open>
  \<open>join_paginated_iter\<close>: with \<open>chunk_size\<close> zero, one call with \<open>limit\<close> as size.
\<close>

definition join_paginated_iter ::
  "nat \<Rightarrow> ('u, 'c) get_things \<Rightarrow> int \<Rightarrow> 'c option \<Rightarrow> int
     \<Rightarrow> ((int \<times> 'c option) list \<times> 'u list) option" where
  "join_paginated_iter fuel get_things chunk_size last_key limit =
     (if chunk_size = 0
        then Some ([(limit, last_key)], map fst (get_things limit last_key))
      else jpi_loop fuel get_things chunk_size limit limit last_key)"

text \<open>The \<open>count_to_ten\<close> of the docstring: the rows after the cursor, at most \<open>n\<close> unless \<open>n\<close> is zero.\<close>

definition count_to_ten :: "(string, int) get_things" where
  "count_to_ten n last_key =
     (let rows = filter (\<lambda>(_, k). case last_key of None \<Rightarrow> True | Some l \<Rightarrow> l < k)
                   (zip [''one'', ''two'', ''three'', ''four'', ''five'', ''six'', ''seven'',
                         ''eight'', ''nine'', ''ten''] [1 ..10])
      in if n = 0 then rows else take (nat n) rows)"

text \<open>The values of \<open>to_get\<close> and of the new \<open>remaining\<close> in one iteration of the loop.\<close>

definition to_get_of :: "int \<Rightarrow> int \<Rightarrow> int \<Rightarrow> int" where
  "to_get_of chunk_size limit remaining =
     (if limit \<noteq> 0 then min remaining chunk_size else chunk_size)"

definition rem_of :: "int \<Rightarrow> int \<Rightarrow> int \<Rightarrow> int" where
  "rem_of chunk_size limit remaining =
     (if limit \<noteq> 0 then max 0 (remaining - to_get_of chunk_size limit remaining) else remaining)"

text \<open>
  The cursor of the \<open>k\<close>-th call of a run without limit, as the loop chains them: the
  start cursor, then the sort key of the last thing of the call before.
\<close>

fun page_cursor :: "('u, 'c) get_things \<Rightarrow> int \<Rightarrow> 'c option \<Rightarrow> nat \<Rightarrow> 'c option" where
  "page_cursor g cs start 0 = start"
| "page_cursor g cs start (Suc k) = Some (snd (last (g cs (page_cursor g cs start k))))"

subsection \<open>The worker pool\<close>









section \<open>Properties of the file retriever\<close>

lemma normalize_url_no_root: "normalize_url u [] url = extract_path u url"
  by (simp add: normalize_url_def split: sum.splits)

text \<open>
  C10. With \<open>feed_root\<close> the empty string, \<open>_normalize_url\<close> returns what
  \<open>extract_path\<close> returns for every URL, whatever \<open>resolve_root\<close> and \<open>is_reserved\<close>
  would say (both are replaced by arbitrary functions \<open>rr\<close>, \<open>ir\<close> without changing the
  result), and a retrieval whose extracted path is \<open>path\<close> hands exactly that path to
  \<open>open\<close> and returns the open file: nothing is rejected.
\<close>

theorem empty_feed_root_unrestricted:
  assumes "extract_path u url = Inr path" and "fs path = Inr fh"
  shows "normalize_url (u\<lparr>resolve_root := rr, is_reserved := ir\<rparr>) [] url = Inr path
       \<and> FileRetriever_call (u\<lparr>resolve_root := rr, is_reserved := ir\<rparr>) fs [] url = (Inr fh, [path])"
  using assms by (simp add: normalize_url_no_root FileRetriever_call_def)

theorem empty_feed_root_unrestricted_witness:
  "normalize_url (posix_utils\<lparr>resolve_root := (\<lambda>_ _. Inl (ValueError ''outside'')), is_reserved := (\<lambda>_. True)\<rparr>)
       [] ''file:///etc/passwd'' = Inr ''/etc/passwd''
   \<and> FileRetriever_call (posix_utils\<lparr>resolve_root := (\<lambda>_ _. Inl (ValueError ''outside'')), is_reserved := (\<lambda>_. True)\<rparr>)
       (\<lambda>p. if p = ''/etc/passwd'' then Inr ''root:x:0:0'' else Inl (OSError p))
       [] ''file:///etc/passwd'' = (Inr ''root:x:0:0'', [''/etc/passwd''])"
  using empty_feed_root_unrestricted
    [where u = posix_utils and url = "''file:///etc/passwd''" and path = "''/etc/passwd''"
       and fs = "\<lambda>p. if p = ''/etc/passwd'' then Inr ''root:x:0:0'' else Inl (OSError p)"
       and fh = "''root:x:0:0''"
       and rr = "\<lambda>_ _. Inl (ValueError ''outside'')" and ir = "\<lambda>_. True"]
  by (simp add: posix_utils_def posix_extract_path_def)

text \<open>
  With a configured (non-empty) root, a \<open>ValueError\<close> of \<open>resolve_root\<close> or a
  resolved path that is an OS-reserved name ends the retrieval in a \<open>ParseError\<close> for
  the URL, with no cause, before any path is handed to \<open>open\<close>. Which paths
  \<open>resolve_root\<close> refuses is decided in \<open>_url_utils\<close>.
\<close>

lemma rejection_becomes_parse_error:
  assumes "feed_root \<noteq> []"
      and "extract_path u url = Inr path"
      and "(\<exists>m. resolve_root u feed_root path = Inl (ValueError m))
         \<or> (\<exists>p. resolve_root u feed_root path = Inr p \<and> is_reserved u p)"
  shows "\<exists>msg. FileRetriever_call u fs feed_root url = (Inl (ParseError url (Some msg) None), [])"
  using assms by (auto simp: FileRetriever_call_def normalize_url_def)

section \<open>Properties of the parser\<close>

lemmas example_defs = example_env_def rss_entry_def undated_entry_def rss_document_def no_dates_def
  example_urlparse_def decimal_of_str_def days_from_civil_def

lemmas parser_defs = make_entry_def get_updated_published_def datetime_from_timetuple_def
  make_enclosure_def make_content_def Enclosure_kw_def Content_kw_def kwarg_def

lemma gup_promote:
  assumes "published_parsed thing = Some (Some tt)" "tt \<noteq> []"
    and "datetime_from_timetuple env (case updated_parsed thing of None \<Rightarrow> None | Some t \<Rightarrow> t) = None"
  shows "get_updated_published env thing True = (Some (timegm env tt), None)"
  using assms by (auto simp: get_updated_published_def datetime_from_timetuple_def Let_def split: option.splits)

lemma gup_own_date:
  assumes "get_updated_published env thing is_rss = (Some u, p)"
  shows "\<exists>tt. tt \<noteq> [] \<and> u = timegm env tt
           \<and> (updated_parsed thing = Some (Some tt)
               \<or> (is_rss \<and> published_parsed thing = Some (Some tt) \<and> p = None))"
  using assms
  by (auto simp: get_updated_published_def datetime_from_timetuple_def Let_def
           split: option.splits if_splits)

lemma make_entry_Inr_updated:
  "make_entry env entry is_rss = Inr ent \<Longrightarrow>
     get_updated_published env entry is_rss = (entry_updated ent, entry_published ent)
     \<and> entry_updated ent \<noteq> None"
  by (auto simp: make_entry_def Let_def split: option.splits if_splits sum.splits prod.splits)

lemma collect_map:
  "(\<And>x. x \<in> set xs \<Longrightarrow> f x = Inr (g x)) \<Longrightarrow> collect f xs = Inr (map g xs)"
  by (induction xs) simp_all


lemma make_enclosure_total:
  assumes "data ''href'' = Some h"
  shows "make_enclosure env data = Inr \<lparr> enc_href = h, enc_type = kwarg data ''type'',
     enc_length = (case data ''length'' of None \<Rightarrow> PyNone
                   | Some v \<Rightarrow> (case py_int env v of Inr n \<Rightarrow> PyInt n | Inl e \<Rightarrow> PyNone)) \<rparr>"
proof (cases "data ''length''")
  case None
  then show ?thesis using assms by (simp add: make_enclosure_def Enclosure_kw_def kwarg_def)
next
  case (Some v)
  then show ?thesis using assms
    by (cases v) (auto simp: make_enclosure_def Enclosure_kw_def kwarg_def split: option.splits)
qed

lemma make_enclosure_of:
  "data ''href'' \<noteq> None \<Longrightarrow> make_enclosure env data = Inr (enclosure_of env data)"
  using make_enclosure_total [of data _ env] by (auto simp: enclosure_of_def kwarg_def)

lemma make_content_of:
  "data ''value'' \<noteq> None \<Longrightarrow> make_content data = Inr (content_of data)"
  by (auto simp: make_content_def Content_kw_def content_of_def kwarg_def)





lemma make_entry_wf:
  assumes "fp_id entry = Some i" and "i \<noteq> []"
      and "get_updated_published env entry is_rss = (Some u, p)"
      and "list_all (\<lambda>d. d ''value'' \<noteq> None) (fp_content entry)"
      and "list_all (\<lambda>d. d ''href'' \<noteq> None) (fp_enclosures entry)"
  shows "make_entry env entry is_rss =
           Inr \<lparr> entry_id = i, entry_updated = Some u, entry_title = fp_title entry,
                 entry_link = fp_link entry, entry_author = fp_author entry,
                 entry_published = p, entry_summary = fp_summary entry,
                 entry_content = (if fp_content entry = [] then None
                                  else Some (map content_of (fp_content entry))),
                 entry_enclosures = (if fp_enclosures entry = [] then None
                                     else Some (map (enclosure_of env) (fp_enclosures entry))),
                 entry_read = False, entry_feed = None \<rparr>"
proof -
  have cs: "collect make_content (fp_content entry) = Inr (map content_of (fp_content entry))"
    using assms(4) by (intro collect_map make_content_of) (simp add: list_all_iff)
  have es: "collect (make_enclosure env) (fp_enclosures entry)
              = Inr (map (enclosure_of env) (fp_enclosures entry))"
    using assms(5) by (intro collect_map make_enclosure_of) (simp add: list_all_iff)
  show ?thesis using assms(1,2,3) cs es by (simp add: make_entry_def)
qed



text \<open>
  C1, for entry construction. An entry that \<open>_make_entry\<close> returns has as \<open>updated\<close>
  one of the entry's own dates: its update date or, for an RSS document, its publication
  date, and then \<open>published\<close> is \<open>None\<close>; so \<open>updated\<close> is never \<open>None\<close> and
  never a time from elsewhere. For an RSS document, an entry with a publication date and
  no update date (the key is missing, its value is \<open>None\<close> or the empty tuple) has the
  publication date promoted by \<open>_get_updated_published\<close>, and when it has an id and its
  content and enclosure dictionaries have their first field, \<open>_make_entry\<close> returns it
  with \<open>updated\<close> the publication date and \<open>published\<close> \<open>None\<close>. For a document
  whose version starts with \<open>rss\<close>, \<open>_process_feed\<close> makes every entry that way.
\<close>

theorem make_entry_updated:
  "(\<forall>ent. make_entry env entry is_rss = Inr ent \<longrightarrow>
       (\<exists>tt. tt \<noteq> [] \<and> entry_updated ent = Some (timegm env tt)
          \<and> (updated_parsed entry = Some (Some tt)
              \<or> (is_rss \<and> published_parsed entry = Some (Some tt) \<and> entry_published ent = None))))
 \<and> (\<forall>tt. published_parsed entry = Some (Some tt) \<and> tt \<noteq> []
        \<and> (updated_parsed entry = None \<or> updated_parsed entry = Some None
            \<or> updated_parsed entry = Some (Some []))
      \<longrightarrow> get_updated_published env entry True = (Some (timegm env tt), None)
        \<and> (\<forall>i. fp_id entry = Some i \<and> i \<noteq> []
                \<and> list_all (\<lambda>d. d ''value'' \<noteq> None) (fp_content entry)
                \<and> list_all (\<lambda>d. d ''href'' \<noteq> None) (fp_enclosures entry)
             \<longrightarrow> (\<exists>ent. make_entry env entry True = Inr ent \<and> entry_id ent = i
                     \<and> entry_updated ent = Some (timegm env tt) \<and> entry_published ent = None)))
 \<and> (\<not> fp_bozo d \<and> take 3 (fp_version d) = ''rss''
      \<longrightarrow> (\<exists>feed. process_feed env url d
                    = Inr (feed, run_generator (\<lambda>e. make_entry env e True) (fp_entries d))))"
proof (intro conjI allI impI)
  fix ent assume m: "make_entry env entry is_rss = Inr ent"
  from make_entry_Inr_updated [OF m] obtain u where
    g: "get_updated_published env entry is_rss = (Some u, entry_published ent)"
    and u: "entry_updated ent = Some u" by auto
  from gup_own_date [OF g] u
  show "\<exists>tt. tt \<noteq> [] \<and> entry_updated ent = Some (timegm env tt)
          \<and> (updated_parsed entry = Some (Some tt)
              \<or> (is_rss \<and> published_parsed entry = Some (Some tt) \<and> entry_published ent = None))"
    by auto
next
  fix tt
  assume a: "published_parsed entry = Some (Some tt) \<and> tt \<noteq> []
        \<and> (updated_parsed entry = None \<or> updated_parsed entry = Some None
            \<or> updated_parsed entry = Some (Some []))"
  then have "datetime_from_timetuple env (case updated_parsed entry of None \<Rightarrow> None | Some t \<Rightarrow> t) = None"
    by (auto simp: datetime_from_timetuple_def)
  with a show g: "get_updated_published env entry True = (Some (timegm env tt), None)"
    by (intro gup_promote) auto
  fix i
  assume w: "fp_id entry = Some i \<and> i \<noteq> []
                \<and> list_all (\<lambda>d. d ''value'' \<noteq> None) (fp_content entry)
                \<and> list_all (\<lambda>d. d ''href'' \<noteq> None) (fp_enclosures entry)"
  from w g show "\<exists>ent. make_entry env entry True = Inr ent \<and> entry_id ent = i
                     \<and> entry_updated ent = Some (timegm env tt) \<and> entry_published ent = None"
    by (simp add: make_entry_wf [where i = i and u = "timegm env tt" and p = None])
next
  assume "\<not> fp_bozo d \<and> take 3 (fp_version d) = ''rss''"
  then show "\<exists>feed. process_feed env url d
                    = Inr (feed, run_generator (\<lambda>e. make_entry env e True) (fp_entries d))"
    by (simp add: process_feed_def Let_def)
qed


theorem make_entry_updated_witness:
  "make_entry example_env rss_entry True
     = Inr \<lparr> entry_id = ''urn:post:1'', entry_updated = Some 1262304000,
             entry_title = Some ''First post'', entry_link = Some ''http://example.com/1'',
             entry_author = None, entry_published = None, entry_summary = Some ''A summary'',
             entry_content = Some [\<lparr> content_value = PyStr ''Hello'',
                                     content_type = PyStr ''text/plain'',
                                     content_language = PyNone \<rparr>],
             entry_enclosures = Some [\<lparr> enc_href = PyStr ''http://example.com/a.mp3'',
                                        enc_type = PyStr ''audio/mpeg'', enc_length = PyNone \<rparr>,
                                      \<lparr> enc_href = PyStr ''http://example.com/b.mp3'',
                                        enc_type = PyNone, enc_length = PyInt 1024 \<rparr>],
             entry_read = False, entry_feed = None \<rparr>
 \<and> get_updated_published example_env rss_entry True = (Some 1262304000, None)
 \<and> (\<exists>feed. process_feed example_env ''feed.xml'' rss_document
        = Inr (feed, run_generator (\<lambda>e. make_entry example_env e True) [rss_entry]))"
proof -
  let ?tt = "[2010, 1, 1, 0, 0, 0, 4, 1, 0] :: int list"
  have e: "make_entry example_env rss_entry True
     = Inr \<lparr> entry_id = ''urn:post:1'', entry_updated = Some 1262304000,
             entry_title = Some ''First post'', entry_link = Some ''http://example.com/1'',
             entry_author = None, entry_published = None, entry_summary = Some ''A summary'',
             entry_content = Some [\<lparr> content_value = PyStr ''Hello'',
                                     content_type = PyStr ''text/plain'',
                                     content_language = PyNone \<rparr>],
             entry_enclosures = Some [\<lparr> enc_href = PyStr ''http://example.com/a.mp3'',
                                        enc_type = PyStr ''audio/mpeg'', enc_length = PyNone \<rparr>,
                                      \<lparr> enc_href = PyStr ''http://example.com/b.mp3'',
                                        enc_type = PyNone, enc_length = PyInt 1024 \<rparr>],
             entry_read = False, entry_feed = None \<rparr>"
    by (simp add: parser_defs example_defs restrict_map_def)
  have p: "published_parsed rss_entry = Some (Some ?tt) \<and> ?tt \<noteq> []
        \<and> (updated_parsed rss_entry = None \<or> updated_parsed rss_entry = Some None
            \<or> updated_parsed rss_entry = Some (Some []))"
    by (simp add: rss_entry_def)
  have w: "fp_id rss_entry = Some ''urn:post:1'' \<and> ''urn:post:1'' \<noteq> []
                \<and> list_all (\<lambda>d. d ''value'' \<noteq> None) (fp_content rss_entry)
                \<and> list_all (\<lambda>d. d ''href'' \<noteq> None) (fp_enclosures rss_entry)"
    by (simp add: rss_entry_def)
  have t: "timegm example_env ?tt = 1262304000"
    by (simp add: example_env_def days_from_civil_def)
  have d: "\<not> fp_bozo rss_document \<and> take 3 (fp_version rss_document) = ''rss''"
          "fp_entries rss_document = [rss_entry]"
    by (simp_all add: rss_document_def)
  note th = make_entry_updated [where env = example_env and entry = rss_entry and is_rss = True
      and d = rss_document and url = "''feed.xml''"]
  from th p t have g: "get_updated_published example_env rss_entry True = (Some 1262304000, None)"
    by metis
  from th p w t obtain ent where "make_entry example_env rss_entry True = Inr ent"
      "entry_updated ent = Some 1262304000" "entry_published ent = None"
    by metis
  from th d have f: "\<exists>feed. process_feed example_env ''feed.xml'' rss_document
        = Inr (feed, run_generator (\<lambda>e. make_entry example_env e True) [rss_entry])"
    by metis
  from e g f show ?thesis by blast
qed

text \<open>
  C1 as stated has entry construction give an entry without any date the batch start time.
  \<open>_make_entry\<close> takes no such time, and from the RSS entry without dates it makes no
  entry.
\<close>

theorem make_entry_fabricates_no_date:
  "make_entry example_env undated_entry True = Inl AssertionError"
  by (simp add: parser_defs example_defs)

text \<open>
  C8. When feedparser reports status 304, \<open>parse_feedparser\<close> raises \<open>NotModified\<close>
  for the URL; when the response of \<open>requests.get\<close> to an http(s) URL has status code
  304, so does \<open>parse_requests\<close>; and for a bare path \<open>parse_requests\<close> hands over to
  \<open>parse_feedparser\<close>, with the same outcome. In each case the result is the exception
  and no document, whatever the document or its entries are: \<open>_process_feed\<close> and
  \<open>_make_entry\<close> are not reached. The update of the feed then is a successful result
  with no entries, whatever the reconciler would do: it is not called.
\<close>

theorem not_modified_raises:
  "(fp_status (feedparser_parse env url http_etag http_last_modified) = Some 304
      \<longrightarrow> parse_feedparser env url http_etag http_last_modified = Inl (NotModified url)
        \<and> update_feed (parse_feedparser env) reconcile url http_etag http_last_modified
            = Inr \<lparr> ur_entries = [] \<rparr>)
 \<and> (\<forall>response. scheme (urlparse env url) \<in> {''http'', ''https''}
        \<and> requests_get env url (request_headers env http_etag http_last_modified) = Inr response
        \<and> status_code response = 304
      \<longrightarrow> parse_requests env url http_etag http_last_modified = Inl (NotModified url)
        \<and> update_feed (parse_requests env) reconcile url http_etag http_last_modified
            = Inr \<lparr> ur_entries = [] \<rparr>)
 \<and> (scheme (urlparse env url) = [] \<and> netloc (urlparse env url) = []
        \<and> params (urlparse env url) = [] \<and> query (urlparse env url) = []
        \<and> fragment (urlparse env url) = []
        \<and> fp_status (feedparser_parse env (url_path (urlparse env url)) http_etag http_last_modified)
            = Some 304
      \<longrightarrow> parse_requests env url http_etag http_last_modified
            = Inl (NotModified (url_path (urlparse env url)))
        \<and> update_feed (parse_requests env) reconcile url http_etag http_last_modified
            = Inr \<lparr> ur_entries = [] \<rparr>)"
  by (auto simp: parse_feedparser_def parse_requests_def update_feed_def Let_def)

theorem not_modified_raises_witness:
  "parse_feedparser example_env ''feed.xml'' (Some ''v2'') None = Inl (NotModified ''feed.xml'')
 \<and> update_feed (parse_feedparser example_env) (\<lambda>parsed. Inl (OtherError ''reconciled''))
      ''feed.xml'' (Some ''v2'') None = Inr \<lparr> ur_entries = [] \<rparr>
 \<and> parse_requests example_env ''http://example.com/feed.xml'' (Some ''v2'') None
      = Inl (NotModified ''http://example.com/feed.xml'')
 \<and> update_feed (parse_requests example_env) (\<lambda>parsed. Inl (OtherError ''reconciled''))
      ''http://example.com/feed.xml'' (Some ''v2'') None = Inr \<lparr> ur_entries = [] \<rparr>
 \<and> parse_requests example_env ''feed.xml'' (Some ''v2'') None = Inl (NotModified ''feed.xml'')"
proof -
  have a: "fp_status (feedparser_parse example_env ''feed.xml'' (Some ''v2'') None) = Some 304"
    by (simp add: example_defs)
  have b: "scheme (urlparse example_env ''http://example.com/feed.xml'') \<in> {''http'', ''https''}"
    by (simp add: example_defs)
  obtain r where r: "requests_get example_env ''http://example.com/feed.xml''
                (request_headers example_env (Some ''v2'') None) = Inr r" "status_code r = 304"
    by (simp add: example_defs request_headers_def truthy_def)
  have c: "urlparse example_env ''feed.xml'' =
      \<lparr> scheme = [], netloc = [], url_path = ''feed.xml'', params = [], query = [], fragment = [] \<rparr>"
    by (simp add: example_defs)
  show ?thesis
    using not_modified_raises [of example_env "''feed.xml''" "Some ''v2''" None
                                  "\<lambda>parsed. Inl (OtherError ''reconciled'')"] a c
          not_modified_raises [of example_env "''http://example.com/feed.xml''" "Some ''v2''" None
                                  "\<lambda>parsed. Inl (OtherError ''reconciled'')"] b r
    by auto
qed






section \<open>Properties of pagination\<close>

lemma jpi_loop_empty_calls:
  "jpi_loop fuel g cs limit remaining cur = Some ([], ys) \<Longrightarrow> limit \<noteq> 0 \<and> remaining = 0 \<and> ys = []"
  by (cases fuel) (auto simp: Let_def split: if_splits option.splits)

lemma jpi_loop_stop: "limit \<noteq> 0 \<Longrightarrow> jpi_loop (Suc fuel) g cs limit 0 cur = Some ([], [])"
  by simp

lemma jpi_loop_step:
  assumes "jpi_loop fuel g cs limit remaining cur = Some (calls, ys)"
      and "\<not> (limit \<noteq> 0 \<and> remaining = 0)"
  obtains fuel' calls' ys' where
      "fuel = Suc fuel'"
      "calls = (to_get_of cs limit remaining, cur) # calls'"
      "ys = map fst (g (to_get_of cs limit remaining) cur) @ ys'"
      "int (length (g (to_get_of cs limit remaining) cur)) < to_get_of cs limit remaining
         \<or> g (to_get_of cs limit remaining) cur = [] \<Longrightarrow> calls' = [] \<and> ys' = []"
      "\<not> int (length (g (to_get_of cs limit remaining) cur)) < to_get_of cs limit remaining
         \<Longrightarrow> g (to_get_of cs limit remaining) cur \<noteq> [] \<Longrightarrow>
         jpi_loop fuel' g cs limit
           (if limit \<noteq> 0 then max 0 (remaining - to_get_of cs limit remaining) else remaining)
           (Some (snd (last (g (to_get_of cs limit remaining) cur)))) = Some (calls', ys')"
proof (cases fuel)
  case 0
  with assms show ?thesis by simp
next
  case (Suc fuel')
  show ?thesis
  proof (cases "g (to_get_of cs limit remaining) cur = []
      \<or> int (length (g (to_get_of cs limit remaining) cur)) < to_get_of cs limit remaining")
    case True
    with assms Suc have "calls = [(to_get_of cs limit remaining, cur)]"
      "ys = map fst (g (to_get_of cs limit remaining) cur)"
      by (auto simp: Let_def to_get_of_def split: if_splits)
    with True Suc show ?thesis by (intro that [of fuel' "[]" "[]"]) auto
  next
    case False
    with assms Suc obtain calls' ys' where
      r: "jpi_loop fuel' g cs limit
           (if limit \<noteq> 0 then max 0 (remaining - to_get_of cs limit remaining) else remaining)
           (Some (snd (last (g (to_get_of cs limit remaining) cur)))) = Some (calls', ys')"
      and c: "calls = (to_get_of cs limit remaining, cur) # calls'"
      and y: "ys = map fst (g (to_get_of cs limit remaining) cur) @ ys'"
      by (auto simp: Let_def to_get_of_def split: if_splits option.splits)
    with False Suc show ?thesis by (intro that [of fuel' calls' ys']) auto
  qed
qed

lemma jpi_loop_Suc:
  "jpi_loop (Suc fuel) g cs limit remaining cur =
     (if limit \<noteq> 0 \<and> remaining = 0 then Some ([], [])
      else if g (to_get_of cs limit remaining) cur = []
        then Some ([(to_get_of cs limit remaining, cur)], [])
      else if int (length (g (to_get_of cs limit remaining) cur)) < to_get_of cs limit remaining
        then Some ([(to_get_of cs limit remaining, cur)], map fst (g (to_get_of cs limit remaining) cur))
      else (case jpi_loop fuel g cs limit (rem_of cs limit remaining)
                   (Some (snd (last (g (to_get_of cs limit remaining) cur)))) of
              None \<Rightarrow> None
            | Some (calls, rest) \<Rightarrow>
                Some ((to_get_of cs limit remaining, cur) # calls,
                      map fst (g (to_get_of cs limit remaining) cur) @ rest)))"
  by (simp add: to_get_of_def rem_of_def Let_def cong: option.case_cong)

lemma to_get_pos:
  "0 < cs \<Longrightarrow> 0 \<le> remaining \<Longrightarrow> \<not> (limit \<noteq> 0 \<and> remaining = 0) \<Longrightarrow> 0 < to_get_of cs limit remaining"
  by (auto simp: to_get_of_def)

lemma jpi_loop_Nil_iff:
  assumes "jpi_loop fuel g cs limit remaining cur = Some (calls, ys)"
  shows "calls = [] \<longleftrightarrow> limit \<noteq> 0 \<and> remaining = 0"
proof (cases fuel)
  case 0
  with assms show ?thesis by simp
next
  case (Suc f)
  show ?thesis
  proof (cases "limit \<noteq> 0 \<and> remaining = 0")
    case True
    with assms Suc show ?thesis by simp
  next
    case False
    from jpi_loop_step [OF assms False] obtain calls' where
      "calls = (to_get_of cs limit remaining, cur) # calls'"
      by blast
    with False show ?thesis by simp
  qed
qed

lemma jpi_loop_Suc_step:
  assumes "jpi_loop (Suc fuel) g cs limit remaining cur = Some (calls, ys)"
      and "\<not> (limit \<noteq> 0 \<and> remaining = 0)"
  obtains calls' ys' where
      "calls = (to_get_of cs limit remaining, cur) # calls'"
      "ys = map fst (g (to_get_of cs limit remaining) cur) @ ys'"
      "int (length (g (to_get_of cs limit remaining) cur)) < to_get_of cs limit remaining
         \<or> g (to_get_of cs limit remaining) cur = [] \<Longrightarrow> calls' = [] \<and> ys' = []"
      "\<not> int (length (g (to_get_of cs limit remaining) cur)) < to_get_of cs limit remaining
         \<Longrightarrow> g (to_get_of cs limit remaining) cur \<noteq> [] \<Longrightarrow>
         jpi_loop fuel g cs limit (rem_of cs limit remaining)
           (Some (snd (last (g (to_get_of cs limit remaining) cur)))) = Some (calls', ys')"
proof -
  let ?n = "to_get_of cs limit remaining"
  let ?things = "g ?n cur"
  show ?thesis
  proof (cases "?things = [] \<or> int (length ?things) < ?n")
    case True
    with assms have "calls = [(?n, cur)]" "ys = map fst ?things"
      by (auto simp add: jpi_loop_Suc simp del: jpi_loop.simps split: if_splits)
    with True show ?thesis by (intro that [of "[]" "[]"]) auto
  next
    case False
    with assms have
      "(case jpi_loop fuel g cs limit (rem_of cs limit remaining) (Some (snd (last ?things))) of
          None \<Rightarrow> None
        | Some (calls', rest) \<Rightarrow> Some ((?n, cur) # calls', map fst ?things @ rest))
       = Some (calls, ys)"
      by (simp add: jpi_loop_Suc del: jpi_loop.simps)
    then obtain calls' ys' where
      "jpi_loop fuel g cs limit (rem_of cs limit remaining) (Some (snd (last ?things))) = Some (calls', ys')"
      "calls = (?n, cur) # calls'" "ys = map fst ?things @ ys'"
      by (auto split: option.splits)
    with False show ?thesis by (intro that [of calls' ys']) auto
  qed
qed

lemma jpi_loop_calls:
  assumes "jpi_loop fuel g cs limit remaining cur = Some (calls, ys)"
      and "0 < cs" and "0 \<le> remaining" and "i < length calls"
  shows "fst (calls ! i) = to_get_of cs limit (remaining - sum_list (map fst (take i calls)))
       \<and> 0 < fst (calls ! i)
       \<and> snd (calls ! i) = (if i = 0 then cur
            else Some (snd (last (g (fst (calls ! (i - 1))) (snd (calls ! (i - 1)))))))
       \<and> (Suc i < length calls \<longleftrightarrow>
            \<not> (int (length (g (fst (calls ! i)) (snd (calls ! i)))) < fst (calls ! i)
               \<or> (limit \<noteq> 0 \<and> sum_list (map fst (take (Suc i) calls)) = remaining)))"
  using assms
proof (induction fuel arbitrary: remaining cur calls ys i)
  case 0
  then show ?case by simp
next
  case (Suc fuel)
  let ?n = "to_get_of cs limit remaining"
  let ?things = "g ?n cur"
  let ?rem = "rem_of cs limit remaining"
  have "calls \<noteq> []" using Suc.prems(4) by auto
  with jpi_loop_Nil_iff [OF Suc.prems(1)] have go: "\<not> (limit \<noteq> 0 \<and> remaining = 0)"
    by blast
  have npos: "0 < ?n" using to_get_pos [OF Suc.prems(2,3) go] .
  have nle: "limit \<noteq> 0 \<Longrightarrow> ?n \<le> remaining" by (simp add: to_get_of_def)
  have rem_eq: "limit \<noteq> 0 \<Longrightarrow> ?rem = remaining - ?n" using nle by (simp add: rem_of_def)
  have rem0: "0 \<le> ?rem" using Suc.prems(3) by (simp add: rem_of_def)
  show ?case
  proof (rule jpi_loop_Suc_step [OF Suc.prems(1) go])
  fix calls' ys'
  assume c: "calls = (?n, cur) # calls'"
    and short: "int (length ?things) < ?n \<or> ?things = [] \<Longrightarrow> calls' = [] \<and> ys' = []"
    and full: "\<not> int (length ?things) < ?n \<Longrightarrow> ?things \<noteq> [] \<Longrightarrow>
        jpi_loop fuel g cs limit ?rem (Some (snd (last ?things))) = Some (calls', ys')"
  have empty_short: "?things = [] \<Longrightarrow> int (length ?things) < ?n" using npos by simp
  show ?case
  proof (cases i)
    case 0
    have k: "calls' \<noteq> [] \<longleftrightarrow> \<not> (int (length ?things) < ?n \<or> (limit \<noteq> 0 \<and> ?n = remaining))"
    proof (cases "int (length ?things) < ?n")
      case True
      then show ?thesis using short by simp
    next
      case False
      then have ne: "?things \<noteq> []" using empty_short by blast
      from jpi_loop_Nil_iff [OF full [OF False ne]]
      have "calls' = [] \<longleftrightarrow> limit \<noteq> 0 \<and> ?rem = 0" .
      moreover have "limit \<noteq> 0 \<Longrightarrow> (?rem = 0 \<longleftrightarrow> ?n = remaining)" using rem_eq by auto
      ultimately show ?thesis using False by blast
    qed
    have z1: "calls ! 0 = (?n, cur)" using c by simp
    have z2: "sum_list (map fst (take 0 calls)) = 0" by simp
    have z3: "sum_list (map fst (take (Suc 0) calls)) = ?n" using c by simp
    have z4: "Suc 0 < length calls \<longleftrightarrow> calls' \<noteq> []" using c by (cases calls') simp_all
    show ?thesis unfolding 0 z1 z2 z3 z4 fst_conv snd_conv using npos k by simp
  next
    case (Suc j)
    with Suc.prems(4) c have j: "j < length calls'" by simp
    then have ns: "\<not> int (length ?things) < ?n" and ne: "?things \<noteq> []"
      using short by auto
    note ih = Suc.IH [OF full [OF ns ne] Suc.prems(2) rem0 j]
    have nth: "calls ! i = calls' ! j" using c Suc by simp
    have sum1: "sum_list (map fst (take i calls)) = ?n + sum_list (map fst (take j calls'))"
      using c Suc by simp
    have sum2: "sum_list (map fst (take (Suc i) calls))
                  = ?n + sum_list (map fst (take (Suc j) calls'))"
      using c Suc by simp
    have len: "Suc i < length calls \<longleftrightarrow> Suc j < length calls'" using c Suc by simp
    have a: "fst (calls ! i) = to_get_of cs limit (remaining - sum_list (map fst (take i calls)))"
    proof (cases "limit = 0")
      case True
      with ih have "fst (calls' ! j) = cs" by (simp add: to_get_of_def)
      with True nth show ?thesis by (simp add: to_get_of_def)
    next
      case False
      then have "?rem - sum_list (map fst (take j calls'))
                   = remaining - sum_list (map fst (take i calls))"
        using rem_eq sum1 by simp
      with ih nth show ?thesis by simp
    qed
    have b: "0 < fst (calls ! i)" using ih nth by simp
    have prev: "calls ! (i - 1) = (if j = 0 then (?n, cur) else calls' ! (j - 1))"
      using c Suc by (cases j) simp_all
    have cc: "snd (calls ! i) = Some (snd (last (g (fst (calls ! (i - 1))) (snd (calls ! (i - 1))))))"
    proof (cases j)
      case 0
      with ih nth prev show ?thesis by simp
    next
      case (Suc k)
      with ih nth prev show ?thesis by simp
    qed
    have d: "Suc i < length calls \<longleftrightarrow>
            \<not> (int (length (g (fst (calls ! i)) (snd (calls ! i)))) < fst (calls ! i)
               \<or> (limit \<noteq> 0 \<and> sum_list (map fst (take (Suc i) calls)) = remaining))"
    proof (cases "limit = 0")
      case True
      with ih have "Suc j < length calls' \<longleftrightarrow>
           \<not> int (length (g (fst (calls' ! j)) (snd (calls' ! j)))) < fst (calls' ! j)"
        by simp
      with True nth len show ?thesis by simp
    next
      case False
      then have e: "sum_list (map fst (take (Suc j) calls')) = ?rem
             \<longleftrightarrow> sum_list (map fst (take (Suc i) calls)) = remaining"
        using rem_eq sum2 by auto
      from ih have "Suc j < length calls' \<longleftrightarrow>
            \<not> (int (length (g (fst (calls' ! j)) (snd (calls' ! j)))) < fst (calls' ! j)
               \<or> (limit \<noteq> 0 \<and> sum_list (map fst (take (Suc j) calls')) = ?rem))"
        by blast
      with e nth len show ?thesis by simp
    qed
    have "i \<noteq> 0" using Suc by simp
    with a b cc d show ?thesis by simp
  qed
  qed
qed

lemma jpi_loop_yields:
  "jpi_loop fuel g cs limit remaining cur = Some (calls, ys) \<Longrightarrow>
     ys = concat (map (\<lambda>(n, c). map fst (g n c)) calls)"
proof (induction fuel arbitrary: remaining cur calls ys)
  case 0
  then show ?case by simp
next
  case (Suc fuel)
  let ?n = "to_get_of cs limit remaining"
  let ?things = "g ?n cur"
  show ?case
  proof (cases "limit \<noteq> 0 \<and> remaining = 0")
    case True
    with Suc.prems show ?thesis by simp
  next
    case False
    show ?thesis
    proof (rule jpi_loop_Suc_step [OF Suc.prems False])
      fix calls' ys'
      assume c: "calls = (?n, cur) # calls'" and y: "ys = map fst ?things @ ys'"
        and short: "int (length ?things) < ?n \<or> ?things = [] \<Longrightarrow> calls' = [] \<and> ys' = []"
        and full: "\<not> int (length ?things) < ?n \<Longrightarrow> ?things \<noteq> [] \<Longrightarrow>
          jpi_loop fuel g cs limit (rem_of cs limit remaining)
            (Some (snd (last ?things))) = Some (calls', ys')"
      have "ys' = concat (map (\<lambda>(n, c). map fst (g n c)) calls')"
      proof (cases "int (length ?things) < ?n \<or> ?things = []")
        case True
        then show ?thesis using short by simp
      next
        case False
        then show ?thesis using full Suc.IH by blast
      qed
      then show ?thesis using c y by simp
    qed
  qed
qed

lemma jpi_loop_terminates:
  "0 < cs \<Longrightarrow> 0 \<le> remaining \<Longrightarrow> limit \<noteq> 0 \<Longrightarrow> nat remaining < fuel \<Longrightarrow>
     \<exists>r. jpi_loop fuel g cs limit remaining cur = Some r"
proof (induction fuel arbitrary: remaining cur)
  case 0
  then show ?case by simp
next
  case (Suc fuel)
  show ?case
  proof (cases "remaining = 0")
    case True
    then show ?thesis using Suc.prems(3) by simp
  next
    case False
    let ?n = "to_get_of cs limit remaining"
    let ?things = "g ?n cur"
    have "0 < ?n" using False Suc.prems by (simp add: to_get_of_def)
    then have "nat (rem_of cs limit remaining) < fuel" "0 \<le> rem_of cs limit remaining"
      using Suc.prems False by (auto simp: rem_of_def)
    from Suc.IH [OF Suc.prems(1) this(2) Suc.prems(3) this(1), of "Some (snd (last ?things))"]
    obtain a b where r: "jpi_loop fuel g cs limit (rem_of cs limit remaining)
                         (Some (snd (last ?things))) = Some (a, b)"
      by auto
    show ?thesis
      unfolding jpi_loop_Suc r by simp
  qed
qed

lemma jpi_loop_more_fuel:
  "jpi_loop fuel g cs limit remaining cur = Some r \<Longrightarrow>
     jpi_loop (fuel + k) g cs limit remaining cur = Some r"
proof (induction fuel arbitrary: remaining cur r)
  case 0
  then show ?case by simp
next
  case (Suc fuel)
  let ?n = "to_get_of cs limit remaining"
  let ?things = "g ?n cur"
  let ?rec = "\<lambda>f. jpi_loop f g cs limit (rem_of cs limit remaining) (Some (snd (last ?things)))"
  have eq: "Suc fuel + k = Suc (fuel + k)" by simp
  have same: "jpi_loop (Suc (fuel + k)) g cs limit remaining cur
                = jpi_loop (Suc fuel) g cs limit remaining cur"
  proof (cases "(limit \<noteq> 0 \<and> remaining = 0) \<or> ?things = [] \<or> int (length ?things) < ?n")
    case True
    then show ?thesis by (auto simp add: jpi_loop_Suc simp del: jpi_loop.simps)
  next
    case False
    have "?rec fuel \<noteq> None"
    proof
      assume "?rec fuel = None"
      then have "jpi_loop (Suc fuel) g cs limit remaining cur = None"
        using False by (simp add: jpi_loop_Suc del: jpi_loop.simps)
      with Suc.prems show False by simp
    qed
    then obtain r' where r': "?rec fuel = Some r'" by blast
    from Suc.IH [OF r'] have r'': "?rec (fuel + k) = Some r'" .
    show ?thesis unfolding jpi_loop_Suc r' r'' by (rule refl)
  qed
  show ?case unfolding eq same using Suc.prems .
qed

lemma page_cursor_shift:
  "page_cursor g cs start (Suc k) = page_cursor g cs (Some (snd (last (g cs start)))) k"
  by (induction k) simp_all

lemma jpi_unlimited_run:
  assumes cs: "0 < cs"
  shows "(\<forall>j<k. \<not> int (length (g cs (page_cursor g cs cur j))) < cs) \<Longrightarrow>
         int (length (g cs (page_cursor g cs cur k))) < cs \<Longrightarrow>
         jpi_loop (Suc k + extra) g cs 0 remaining cur
           = Some (map (\<lambda>j. (cs, page_cursor g cs cur j)) [0..<Suc k],
                   concat (map (\<lambda>j. map fst (g cs (page_cursor g cs cur j))) [0..<Suc k]))"
proof (induction k arbitrary: cur)
  case 0
  then have short: "int (length (g cs cur)) < cs" by simp
  have tg: "to_get_of cs 0 remaining = cs" by (simp add: to_get_of_def)
  have "jpi_loop (Suc extra) g cs 0 remaining cur = Some ([(cs, cur)], map fst (g cs cur))"
    unfolding jpi_loop_Suc tg using short by simp
  then show ?case by simp
next
  case (Suc k)
  let ?things = "g cs cur"
  let ?cur' = "Some (snd (last ?things))"
  have tg: "to_get_of cs 0 remaining = cs" and rm: "rem_of cs 0 remaining = remaining"
    by (simp_all add: to_get_of_def rem_of_def)
  from Suc.prems(1) have full: "\<not> int (length ?things) < cs" by force
  with cs have ne: "?things \<noteq> []" by auto
  have p1: "\<forall>j<k. \<not> int (length (g cs (page_cursor g cs ?cur' j))) < cs"
  proof (intro allI impI)
    fix j assume "j < k"
    then have "Suc j < Suc k" by simp
    with Suc.prems(1) have "\<not> int (length (g cs (page_cursor g cs cur (Suc j)))) < cs" by blast
    then show "\<not> int (length (g cs (page_cursor g cs ?cur' j))) < cs"
      by (simp add: page_cursor_shift del: page_cursor.simps)
  qed
  have p2: "int (length (g cs (page_cursor g cs ?cur' k))) < cs"
    using Suc.prems(2) by (simp add: page_cursor_shift del: page_cursor.simps)
  note ih = Suc.IH [OF p1 p2]
  have fuel: "Suc (Suc k) + extra = Suc (Suc k + extra)" by simp
  have run: "jpi_loop (Suc (Suc k + extra)) g cs 0 remaining cur
      = Some ((cs, cur) # map (\<lambda>j. (cs, page_cursor g cs ?cur' j)) [0..<Suc k],
              map fst ?things @ concat (map (\<lambda>j. map fst (g cs (page_cursor g cs ?cur' j))) [0..<Suc k]))"
    unfolding jpi_loop_Suc tg rm ih using full ne by simp
  have m1: "map (\<lambda>j. (cs, page_cursor g cs cur j)) [0..<Suc (Suc k)]
          = (cs, cur) # map (\<lambda>j. (cs, page_cursor g cs ?cur' j)) [0..<Suc k]"
    unfolding map_upt_Suc [of _ "Suc k"] by (simp only: page_cursor_shift page_cursor.simps)
  have m2: "concat (map (\<lambda>j. map fst (g cs (page_cursor g cs cur j))) [0..<Suc (Suc k)])
          = map fst ?things @ concat (map (\<lambda>j. map fst (g cs (page_cursor g cs ?cur' j))) [0..<Suc k])"
    unfolding map_upt_Suc [of _ "Suc k"] by (simp only: page_cursor_shift page_cursor.simps concat.simps)
  show ?case unfolding fuel run m1 m2 by (rule refl)
qed

lemma jpi_unlimited_never:
  assumes cs: "0 < cs"
  shows "(\<forall>j. \<not> int (length (g cs (page_cursor g cs cur j))) < cs) \<Longrightarrow>
         jpi_loop fuel g cs 0 remaining cur = None"
proof (induction fuel arbitrary: cur)
  case 0
  show ?case by simp
next
  case (Suc fuel)
  let ?things = "g cs cur"
  let ?cur' = "Some (snd (last ?things))"
  have tg: "to_get_of cs 0 remaining = cs" and rm: "rem_of cs 0 remaining = remaining"
    by (simp_all add: to_get_of_def rem_of_def)
  from Suc.prems [rule_format, of 0] have full: "\<not> int (length ?things) < cs" by simp
  with cs have ne: "?things \<noteq> []" by auto
  have "\<forall>j. \<not> int (length (g cs (page_cursor g cs ?cur' j))) < cs"
  proof
    fix j
    from Suc.prems [rule_format, of "Suc j"]
    show "\<not> int (length (g cs (page_cursor g cs ?cur' j))) < cs"
      by (simp add: page_cursor_shift del: page_cursor.simps)
  qed
  from Suc.IH [OF this] have r: "jpi_loop fuel g cs 0 remaining ?cur' = None" .
  show ?case unfolding jpi_loop_Suc tg rm r using full ne by simp
qed


text \<open>
  C5. For a positive \<open>chunk_size\<close> and a limit that is not negative. With a limit the
  run ends within \<open>limit + 1\<close> iterations. Without one (\<open>limit\<close> zero, the default)
  every call asks for \<open>chunk_size\<close> things at the cursor the call before left, and the
  run ends with the first call that returns fewer: if that is call \<open>n\<close>, the run makes
  exactly the calls \<open>0\<close> to \<open>n\<close> and yields their things in order; if no call ever
  returns fewer, the generator never finishes. A finished run is the same with more fuel;
  it makes at least one call and yields, in order, the things of every call; the \<open>i\<close>-th
  call asks for \<open>chunk_size\<close> things, or for what remains of the limit when that is
  less, never more than \<open>chunk_size\<close> and never none; its cursor is the start cursor for
  the first call and the sort key of the last thing of the call before for every other;
  and a further call follows exactly when the call returned no fewer things than asked
  for and the limit is not used up. With \<open>chunk_size\<close> zero there is one call, of size
  \<open>limit\<close> at the start cursor, and everything it returns is yielded.
\<close>

theorem join_paginated_iter_calls:
  assumes "0 < chunk_size" and "0 \<le> limit"
  shows "(0 < limit \<longrightarrow>
            (\<exists>r. join_paginated_iter (Suc (nat limit)) get_things chunk_size start limit = Some r))
       \<and> (limit = 0 \<longrightarrow>
            (\<forall>n extra.
               (\<forall>j<n. \<not> int (length (get_things chunk_size
                                        (page_cursor get_things chunk_size start j))) < chunk_size)
               \<and> int (length (get_things chunk_size
                                 (page_cursor get_things chunk_size start n))) < chunk_size
             \<longrightarrow> join_paginated_iter (Suc n + extra) get_things chunk_size start limit
                   = Some (map (\<lambda>j. (chunk_size, page_cursor get_things chunk_size start j))
                             [0..<Suc n],
                           concat (map (\<lambda>j. map fst (get_things chunk_size
                                            (page_cursor get_things chunk_size start j)))
                                     [0..<Suc n])))
          \<and> ((\<forall>j. \<not> int (length (get_things chunk_size
                                      (page_cursor get_things chunk_size start j))) < chunk_size)
             \<longrightarrow> join_paginated_iter fuel get_things chunk_size start limit = None))
       \<and> (\<forall>calls ys k.
            join_paginated_iter fuel get_things chunk_size start limit = Some (calls, ys) \<longrightarrow>
              join_paginated_iter (fuel + k) get_things chunk_size start limit = Some (calls, ys)
            \<and> calls \<noteq> []
            \<and> ys = concat (map (\<lambda>(n, c). map fst (get_things n c)) calls)
            \<and> (\<forall>i < length calls.
                  fst (calls ! i) =
                    (if limit \<noteq> 0 then min (limit - sum_list (map fst (take i calls))) chunk_size
                     else chunk_size)
                \<and> 0 < fst (calls ! i) \<and> fst (calls ! i) \<le> chunk_size
                \<and> snd (calls ! i) =
                    (if i = 0 then start
                     else Some (snd (last (get_things (fst (calls ! (i - 1))) (snd (calls ! (i - 1)))))))
                \<and> (Suc i < length calls \<longleftrightarrow>
                     \<not> (int (length (get_things (fst (calls ! i)) (snd (calls ! i)))) < fst (calls ! i)
                        \<or> (limit \<noteq> 0 \<and> sum_list (map fst (take (Suc i) calls)) = limit)))))
       \<and> join_paginated_iter fuel get_things 0 start limit
            = Some ([(limit, start)], map fst (get_things limit start))"
proof (intro conjI allI impI)
  assume "0 < limit"
  then have "limit \<noteq> 0" "nat limit < Suc (nat limit)" by simp_all
  from jpi_loop_terminates [OF assms(1,2) this]
  show "\<exists>r. join_paginated_iter (Suc (nat limit)) get_things chunk_size start limit = Some r"
    using assms(1) by (simp add: join_paginated_iter_def del: jpi_loop.simps)
next
  show "join_paginated_iter fuel get_things 0 start limit
            = Some ([(limit, start)], map fst (get_things limit start))"
    by (simp add: join_paginated_iter_def)
next
  fix n extra
  assume l: "limit = 0"
    and p: "(\<forall>j<n. \<not> int (length (get_things chunk_size
                                        (page_cursor get_things chunk_size start j))) < chunk_size)
               \<and> int (length (get_things chunk_size
                                 (page_cursor get_things chunk_size start n))) < chunk_size"
  from p have p1: "\<forall>j<n. \<not> int (length (get_things chunk_size
                                        (page_cursor get_things chunk_size start j))) < chunk_size"
    and p2: "int (length (get_things chunk_size
                                 (page_cursor get_things chunk_size start n))) < chunk_size"
    by blast+
  have "join_paginated_iter (Suc n + extra) get_things chunk_size start limit
          = jpi_loop (Suc n + extra) get_things chunk_size 0 0 start"
    using assms(1) l by (simp add: join_paginated_iter_def del: jpi_loop.simps)
  also note jpi_unlimited_run [OF assms(1) p1 p2, of extra 0]
  finally show "join_paginated_iter (Suc n + extra) get_things chunk_size start limit
                   = Some (map (\<lambda>j. (chunk_size, page_cursor get_things chunk_size start j))
                             [0..<Suc n],
                           concat (map (\<lambda>j. map fst (get_things chunk_size
                                            (page_cursor get_things chunk_size start j)))
                                     [0..<Suc n]))" .
next
  assume l: "limit = 0"
    and p: "\<forall>j. \<not> int (length (get_things chunk_size
                                      (page_cursor get_things chunk_size start j))) < chunk_size"
  have "join_paginated_iter fuel get_things chunk_size start limit
          = jpi_loop fuel get_things chunk_size 0 0 start"
    using assms(1) l by (simp add: join_paginated_iter_def del: jpi_loop.simps)
  also note jpi_unlimited_never [OF assms(1) p, of fuel 0]
  finally show "join_paginated_iter fuel get_things chunk_size start limit = None" .
next
  fix calls ys k
  assume "join_paginated_iter fuel get_things chunk_size start limit = Some (calls, ys)"
  then have run: "jpi_loop fuel get_things chunk_size limit limit start = Some (calls, ys)"
    using assms(1) by (simp add: join_paginated_iter_def)
  show "join_paginated_iter (fuel + k) get_things chunk_size start limit = Some (calls, ys)"
    using jpi_loop_more_fuel [OF run] assms(1) by (simp add: join_paginated_iter_def)
  show "calls \<noteq> []"
    using jpi_loop_Nil_iff [OF run] by blast
  show "ys = concat (map (\<lambda>(n, c). map fst (get_things n c)) calls)"
    using jpi_loop_yields [OF run] .
  fix i assume i: "i < length calls"
  note c = jpi_loop_calls [OF run assms(1,2) i]
  from c show "fst (calls ! i) =
                    (if limit \<noteq> 0 then min (limit - sum_list (map fst (take i calls))) chunk_size
                     else chunk_size)"
    by (simp add: to_get_of_def)
  then show "fst (calls ! i) \<le> chunk_size" by (simp split: if_splits)
  from c show "0 < fst (calls ! i)" by blast
  from c show "snd (calls ! i) =
                    (if i = 0 then start
                     else Some (snd (last (get_things (fst (calls ! (i - 1))) (snd (calls ! (i - 1)))))))"
    by blast
  from c show "Suc i < length calls \<longleftrightarrow>
                     \<not> (int (length (get_things (fst (calls ! i)) (snd (calls ! i)))) < fst (calls ! i)
                        \<or> (limit \<noteq> 0 \<and> sum_list (map fst (take (Suc i) calls)) = limit))"
    by blast
qed


lemma count_to_ten_run:
  "join_paginated_iter 3 count_to_ten 4 (Some 4) 5
     = Some ([(4, Some 4), (1, Some 8)], [''five'', ''six'', ''seven'', ''eight'', ''nine''])"
  by (simp add: join_paginated_iter_def count_to_ten_def numeral_3_eq_3 upto.simps)

lemma count_to_ten_pages:
  "count_to_ten 4 None = [(''one'', 1), (''two'', 2), (''three'', 3), (''four'', 4)]"
  "count_to_ten 4 (Some 4) = [(''five'', 5), (''six'', 6), (''seven'', 7), (''eight'', 8)]"
  "count_to_ten 4 (Some 8) = [(''nine'', 9), (''ten'', 10)]"
  by (simp_all add: count_to_ten_def upto.simps)

lemma count_to_ten_cursors:
  "page_cursor count_to_ten 4 None 0 = None"
  "page_cursor count_to_ten 4 None (Suc 0) = Some 4"
  "page_cursor count_to_ten 4 None (Suc (Suc 0)) = Some 8"
  by (simp_all add: count_to_ten_pages)

theorem join_paginated_iter_calls_witness:
  "(\<exists>r. join_paginated_iter (Suc (nat 5)) count_to_ten 4 (Some 4) 5 = Some r)
 \<and> join_paginated_iter (3 + 7) count_to_ten 4 (Some 4) 5
      = Some ([(4, Some 4), (1, Some 8)], [''five'', ''six'', ''seven'', ''eight'', ''nine''])
 \<and> fst ([(4, Some 4), (1, Some (8::int))] ! 1) \<le> (4::int)
 \<and> join_paginated_iter 3 count_to_ten 0 (Some 4) 5
      = Some ([(5, Some 4)], map fst (count_to_ten 5 (Some 4)))
 \<and> join_paginated_iter (Suc (Suc (Suc 0)) + 4) count_to_ten 4 None 0
      = Some ([(4, None), (4, Some 4), (4, Some 8)],
              [''one'', ''two'', ''three'', ''four'', ''five'', ''six'', ''seven'', ''eight'',
               ''nine'', ''ten''])"
proof -
  have a: "(0::int) < 4" and b: "(0::int) \<le> 5" and b0: "(0::int) \<le> 0" by simp_all
  note t = join_paginated_iter_calls [OF a b, of count_to_ten "Some 4" 3]
  from t have 1: "\<exists>r. join_paginated_iter (Suc (nat 5)) count_to_ten 4 (Some 4) 5 = Some r"
    by simp
  from t count_to_ten_run have 2: "join_paginated_iter (3 + 7) count_to_ten 4 (Some 4) 5
      = Some ([(4, Some 4), (1, Some 8)], [''five'', ''six'', ''seven'', ''eight'', ''nine''])"
    by blast
  have l: "1 < length [(4::int, Some (4::int)), (1, Some 8)]" by simp
  from t count_to_ten_run l have 3: "fst ([(4, Some 4), (1, Some (8::int))] ! 1) \<le> (4::int)"
    by blast
  from t have 4: "join_paginated_iter 3 count_to_ten 0 (Some 4) 5
      = Some ([(5, Some 4)], map fst (count_to_ten 5 (Some 4)))"
    by blast
  have full: "\<forall>j<Suc (Suc 0). \<not> int (length (count_to_ten 4 (page_cursor count_to_ten 4 None j))) < 4"
    by (simp add: less_Suc_eq count_to_ten_pages)
  have short: "int (length (count_to_ten 4 (page_cursor count_to_ten 4 None (Suc (Suc 0))))) < 4"
    by (simp add: count_to_ten_pages)
  note u = join_paginated_iter_calls [OF a b0, of count_to_ten None,
      THEN conjunct2, THEN conjunct1, rule_format, OF refl, THEN conjunct1, rule_format,
      OF conjI, OF full short, of 4]
  have up: "[0..<Suc (Suc (Suc 0))] = [0, Suc 0, Suc (Suc 0)]"
    by (simp add: upt_rec)
  have 5: "join_paginated_iter (Suc (Suc (Suc 0)) + 4) count_to_ten 4 None 0
      = Some ([(4, None), (4, Some 4), (4, Some 8)],
              [''one'', ''two'', ''three'', ''four'', ''five'', ''six'', ''seven'', ''eight'',
               ''nine'', ''ten''])"
    unfolding u up by (simp add: count_to_ten_cursors count_to_ten_pages del: page_cursor.simps)
  from 1 2 3 4 5 show ?thesis by (intro conjI)
qed

section \<open>Properties of the worker pool\<close>













end
